theory Spec2Isabelle
  imports Main "HOL-Library.Multiset"
begin

text \<open>
  A model of \<open>src/index.ts\<close> of the VRChat client: the cookie functions
  (\<open>deseralizeCookie\<close>, \<open>serializeCookie\<close>, \<open>serializeCookies\<close>), the cookie jar
  kept in the credentials cache (\<open>getCookies\<close>, \<open>saveCookies\<close>), the two cookie
  interceptors, and \<open>login\<close>.
\<close>

section \<open>JavaScript values used by the client\<close>

text \<open>
  Numbers. The numbers of the program are times in milliseconds: \<open>Date.now()\<close>, the
  result of \<open>new Date(s).getTime()\<close> and \<open>Date.now() + Number(s) * 1000\<close>. They
  are integers here, with \<open>NaN\<close> as a value of its own, since both \<open>Number\<close> and
  the date parser answer \<open>NaN\<close> on text they do not understand. A nullable number is a
  \<open>jsnum option\<close>, \<open>None\<close> being \<open>null\<close>. \<open>truthy_num\<close> is the test
  \<open>x ? _ : _\<close> on such a value: \<open>null\<close>, \<open>NaN\<close> and \<open>0\<close> are falsy.
\<close>

datatype jsnum = NaN | Num int

fun js_add :: "jsnum \<Rightarrow> jsnum \<Rightarrow> jsnum" where
  "js_add (Num a) (Num b) = Num (a + b)"
| "js_add _ _ = NaN"

fun js_mul :: "jsnum \<Rightarrow> jsnum \<Rightarrow> jsnum" where
  "js_mul (Num a) (Num b) = Num (a * b)"
| "js_mul _ _ = NaN"

fun truthy_num :: "jsnum option \<Rightarrow> bool" where
  "truthy_num (Some (Num n)) = (n \<noteq> 0)"
| "truthy_num _ = False"

text \<open>
  Strings are lists of characters, read as code units in the range 0..255.
  \<open>js_split sep s\<close> is \<open>s.split(sep)\<close> for a one-character separator; the result of
  \<open>split\<close> is never empty, so it is given as its first piece and the list of the others.
  \<open>js_join\<close> is \<open>Array.prototype.join\<close>, \<open>trim\<close> and \<open>toLowerCase\<close> are the
  string methods of the same names on that range of characters.
\<close>

fun js_split :: "char \<Rightarrow> string \<Rightarrow> string \<times> string list" where
  "js_split sep [] = ([], [])"
| "js_split sep (c # cs) =
     (let (p, ps) = js_split sep cs
      in if c = sep then ([], p # ps) else (c # p, ps))"

fun js_join :: "string \<Rightarrow> string list \<Rightarrow> string" where
  "js_join sep [] = []"
| "js_join sep [x] = x"
| "js_join sep (x # y # ys) = x @ sep @ js_join sep (y # ys)"

definition js_whitespace :: "char \<Rightarrow> bool" where
  "js_whitespace c \<longleftrightarrow>
     c = CHR 0x09 \<or> c = CHR 0x0A \<or> c = CHR 0x0B \<or> c = CHR 0x0C \<or> c = CHR 0x0D \<or>
     c = CHR 0x20 \<or> c = CHR 0xA0"

definition trim :: "string \<Rightarrow> string" where
  "trim s = rev (dropWhile js_whitespace (rev (dropWhile js_whitespace s)))"

definition lower_char :: "char \<Rightarrow> char" where
  "lower_char c =
     (let n = (of_char c :: nat)
      in if (65 \<le> n \<and> n \<le> 90) \<or> (192 \<le> n \<and> n \<le> 222 \<and> n \<noteq> 215)
         then char_of (n + 32) else c)"

definition toLowerCase :: "string \<Rightarrow> string" where
  "toLowerCase s = map lower_char s"

subsection \<open>Objects as ordered property lists\<close>

text \<open>
  A plain object (\<open>Record<string, V>\<close>) is the list of its own properties in the order
  in which \<open>Object.entries\<close>, \<open>Object.values\<close> and the spread syntax enumerate them:
  the keys that are array indices (canonical decimal numerals below \<open>2^32 - 1\<close>) first,
  in ascending numeric order, then the other keys in the order of their creation.
  \<open>obj_set\<close> defines or overwrites one property, keeping that order; an overwritten
  property keeps its place. \<open>enum_before k k'\<close> says that this order allows \<open>k\<close>
  before \<open>k'\<close>. The same order is described from the entries written: \<open>inserted es\<close>
  is the mapping in insertion order (each name once, at the place of its first entry, with
  the value of its last entry), and \<open>enumeration es\<close> lists the entries of that mapping
  whose names are array indices first, sorted by index, and then the others as they stand.
  \<open>insert_after f x ys\<close> puts \<open>x\<close> before the first element of \<open>ys\<close> that
  \<open>f\<close> ranks above it. \<open>fromEntries\<close> is \<open>Object.fromEntries\<close>, \<open>spread2 a b\<close>
  is the object literal \<open>{...a, ...b}\<close> and \<open>get_prop ob k\<close> is \<open>ob[k]\<close>
  (\<open>None\<close> for a missing property).
\<close>

type_synonym 'v obj = "(string \<times> 'v) list"

definition is_digit :: "char \<Rightarrow> bool" where
  "is_digit c \<longleftrightarrow> (let n = (of_char c :: int) in 48 \<le> n \<and> n \<le> 57)"

definition dec_value :: "string \<Rightarrow> int" where
  "dec_value s = foldl (\<lambda>acc c. 10 * acc + (of_char c - 48)) 0 s"

definition array_index :: "string \<Rightarrow> int option" where
  "array_index s =
     (if s \<noteq> [] \<and> list_all is_digit s \<and> (s = ''0'' \<or> hd s \<noteq> CHR ''0'')
         \<and> dec_value s < 2 ^ 32 - 1
      then Some (dec_value s) else None)"

definition key_before :: "string \<Rightarrow> string \<Rightarrow> bool" where
  "key_before k k' =
     (case array_index k of
        None \<Rightarrow> False
      | Some i \<Rightarrow> (case array_index k' of None \<Rightarrow> True | Some j \<Rightarrow> i < j))"

fun obj_set :: "string \<Rightarrow> 'v \<Rightarrow> 'v obj \<Rightarrow> 'v obj" where
  "obj_set k v [] = [(k, v)]"
| "obj_set k v ((k', v') # ps) =
     (if k = k' then (k, v) # ps
      else if key_before k k' then (k, v) # (k', v') # ps
      else (k', v') # obj_set k v ps)"

definition enum_before :: "string \<Rightarrow> string \<Rightarrow> bool" where
  "enum_before k k' =
     (case array_index k of
        None \<Rightarrow> array_index k' = None
      | Some i \<Rightarrow> (case array_index k' of None \<Rightarrow> True | Some j \<Rightarrow> i \<le> j))"

definition is_index :: "string \<Rightarrow> bool" where
  "is_index k \<longleftrightarrow> array_index k \<noteq> None"

definition index_of :: "string \<Rightarrow> int" where
  "index_of k = (case array_index k of None \<Rightarrow> 0 | Some i \<Rightarrow> i)"

fun put :: "string \<Rightarrow> 'v \<Rightarrow> (string \<times> 'v) list \<Rightarrow> (string \<times> 'v) list" where
  "put k v [] = [(k, v)]"
| "put k v ((k', v') # ps) = (if k = k' then (k, v) # ps else (k', v') # put k v ps)"

definition inserted :: "(string \<times> 'v) list \<Rightarrow> (string \<times> 'v) list" where
  "inserted es = foldl (\<lambda>m (k, v). put k v m) [] es"

definition enumeration :: "(string \<times> 'v) list \<Rightarrow> (string \<times> 'v) list" where
  "enumeration es =
     sort_key (\<lambda>p. index_of (fst p)) (filter (\<lambda>p. is_index (fst p)) (inserted es))
       @ filter (\<lambda>p. \<not> is_index (fst p)) (inserted es)"

fun insert_after :: "('a \<Rightarrow> int) \<Rightarrow> 'a \<Rightarrow> 'a list \<Rightarrow> 'a list" where
  "insert_after f x [] = [x]"
| "insert_after f x (y # ys) = (if f x < f y then x # y # ys else y # insert_after f x ys)"

definition fromEntries :: "(string \<times> 'v) list \<Rightarrow> 'v obj" where
  "fromEntries es = foldl (\<lambda>ob (k, v). obj_set k v ob) [] es"

definition Object_entries :: "'v obj \<Rightarrow> (string \<times> 'v) list" where
  "Object_entries ob = ob"

definition Object_values :: "'v obj \<Rightarrow> 'v list" where
  "Object_values ob = map snd ob"

definition spread2 :: "'v obj \<Rightarrow> 'v obj \<Rightarrow> 'v obj" where
  "spread2 a b = foldl (\<lambda>ob (k, v). obj_set k v ob) [] (Object_entries a @ Object_entries b)"

definition get_prop :: "'v obj \<Rightarrow> string \<Rightarrow> 'v option" where
  "get_prop ob k = map_of ob k"

section \<open>Cookie model\<close>

text \<open>
  The built-in functions the program calls on text are parameters of the model:
  \<open>Number B s\<close> is \<open>Number(s)\<close>, \<open>Date_getTime B s\<close> is
  \<open>new Date(s).getTime()\<close> and \<open>URL_origin B u\<close> is \<open>new URL(u).origin\<close> (the URLs
  of requests and responses are absolute, so this does not throw). The current time
  \<open>Date.now()\<close> is the parameter \<open>now\<close> of each operation; one operation reads one
  time.
\<close>

record builtins =
  Number :: "string \<Rightarrow> jsnum"
  Date_getTime :: "string \<Rightarrow> jsnum"
  URL_origin :: "string \<Rightarrow> string"

record stored_cookie =
  val :: string
  expires :: "jsnum option"
  options :: "string option obj"

record cookie = stored_cookie +
  name :: string

text \<open>
  The type \<open>Cookie\<close> and its form without the name (\<open>Omit<Cookie, "name">\<close>), which is
  what the jar stores under each cookie name. The field \<open>value\<close> of the source is
  \<open>val\<close> here. An attribute written without \<open>=\<close> has the value \<open>undefined\<close>,
  which is \<open>None\<close>; \<open>truthy_str\<close> is the truth test of \<open>options[k]\<close> (a missing
  property, \<open>undefined\<close> and the empty string are falsy) and \<open>str_of\<close> reads the
  string of a truthy one.
\<close>

definition truthy_str :: "string option option \<Rightarrow> bool" where
  "truthy_str x = (case x of Some (Some s) \<Rightarrow> s \<noteq> [] | _ \<Rightarrow> False)"

definition str_of :: "string option option \<Rightarrow> string" where
  "str_of x = (case x of Some (Some s) \<Rightarrow> s | _ \<Rightarrow> [])"

definition parse_option :: "string \<Rightarrow> string \<times> string option" where
  "parse_option option =
     (let (name, rest) = js_split CHR ''='' option
      in (toLowerCase (trim name), (case rest of [] \<Rightarrow> None | v # _ \<Rightarrow> Some v)))"

definition deseralizeCookie :: "builtins \<Rightarrow> int \<Rightarrow> string \<Rightarrow> cookie" where
  "deseralizeCookie B now cookie =
     (let (name, rest) = js_split CHR ''='' cookie;
          (value, opts) = js_split CHR '';'' (js_join ''='' rest);
          options = fromEntries (map parse_option opts);
          expires =
            (if truthy_str (get_prop options ''max-age'')
             then Some (js_add (Num now)
                    (js_mul (Number B (str_of (get_prop options ''max-age''))) (Num 1000)))
             else if truthy_str (get_prop options ''expires'')
             then Some (Date_getTime B (str_of (get_prop options ''expires'')))
             else None)
      in \<lparr> val = value, expires = expires, options = options, name = name \<rparr>)"

definition serializeCookie :: "string \<Rightarrow> string \<Rightarrow> string" where
  "serializeCookie n v = n @ ''='' @ v"

definition serializeCookies :: "stored_cookie obj \<Rightarrow> string" where
  "serializeCookies cookies =
     js_join ''; '' (map (\<lambda>(name, c). serializeCookie name (val c)) (Object_entries cookies))"

subsection \<open>Sample built-ins for evaluating concrete inputs\<close>

text \<open>
  One choice of the built-ins, used where a function is run on a concrete input:
  \<open>Number_dec\<close> agrees with \<open>Number\<close> on blank text, on decimal integer literals
  (with or without a sign) and on text that is no numeric literal; \<open>Date_table\<close> knows two dates in the form servers
  send; \<open>origin_of_url\<close> is the origin of a URL of the form \<open>scheme://host/path\<close>.
\<close>

definition Number_dec :: "string \<Rightarrow> jsnum" where
  "Number_dec s =
     (let t = trim s
      in if t = [] then Num 0
         else if list_all is_digit t then Num (dec_value t)
         else if hd t = CHR ''-'' \<and> tl t \<noteq> [] \<and> list_all is_digit (tl t)
         then Num (- dec_value (tl t))
         else if hd t = CHR ''+'' \<and> tl t \<noteq> [] \<and> list_all is_digit (tl t)
         then Num (dec_value (tl t))
         else NaN)"

definition Date_table :: "string \<Rightarrow> jsnum" where
  "Date_table s =
     (if s = ''Thu, 01 Jan 1970 00:00:05 GMT'' then Num 5000
      else if s = ''Thu, 01 Jan 1970 00:00:09 GMT'' then Num 9000
      else NaN)"

definition origin_of_url :: "string \<Rightarrow> string" where
  "origin_of_url u =
     (case js_split CHR ''/'' u of
        (scheme, e # h # _) \<Rightarrow> scheme @ ''//'' @ h
      | _ \<Rightarrow> ''null'')"

definition JS :: builtins where
  "JS = \<lparr> Number = Number_dec, Date_getTime = Date_table, URL_origin = origin_of_url \<rparr>"


section \<open>Cookie jar over the expiring cache\<close>

text \<open>
  Modelled from the spec: the Expiring Cache Port, which the program uses through
  \<open>this.credentials\<close> (the @hapi/catbox client; its code is not among the sources). It is
  a store keyed by (segment, id) with the operations \<open>start\<close>, \<open>isReady\<close>,
  \<open>get\<close> and \<open>set\<close>; \<open>set\<close> takes a time-to-live in milliseconds or
  \<open>Infinity\<close>, and \<open>get\<close> answers \<open>null\<close> for a key that was never written or
  whose time-to-live has passed. The field \<open>calls\<close> lists the calls made on the port, in
  order, so that a statement can say which calls an operation makes.
\<close>

datatype ttl = Millis int | Infinity

record cache_entry =
  item :: "stored_cookie obj"
  stored :: int
  lifetime :: ttl

datatype cache_call =
    CallStart
  | CallGet string string
  | CallSet string string "stored_cookie obj" ttl

record cache =
  ready :: bool
  entries :: "string \<times> string \<Rightarrow> cache_entry option"
  calls :: "cache_call list"

definition isReady :: "cache \<Rightarrow> bool" where
  "isReady c = ready c"

definition start :: "cache \<Rightarrow> cache" where
  "start c = c\<lparr> ready := True, calls := calls c @ [CallStart] \<rparr>"

definition alive :: "int \<Rightarrow> cache_entry \<Rightarrow> bool" where
  "alive now e = (case lifetime e of Infinity \<Rightarrow> True | Millis t \<Rightarrow> now < stored e + t)"

definition cache_get :: "string \<Rightarrow> string \<Rightarrow> int \<Rightarrow> cache \<Rightarrow> stored_cookie obj option \<times> cache" where
  "cache_get segment ident now c =
     ((case entries c (segment, ident) of
         None \<Rightarrow> None
       | Some e \<Rightarrow> if alive now e then Some (item e) else None),
      c\<lparr> calls := calls c @ [CallGet segment ident] \<rparr>)"

definition cache_set :: "string \<Rightarrow> string \<Rightarrow> stored_cookie obj \<Rightarrow> ttl \<Rightarrow> int \<Rightarrow> cache \<Rightarrow> cache" where
  "cache_set segment ident v t now c =
     c\<lparr> entries := (entries c)((segment, ident) \<mapsto> \<lparr> item = v, stored = now, lifetime = t \<rparr>),
        calls := calls c @ [CallSet segment ident v t] \<rparr>"

text \<open>
  Requests and responses, with the fields the program reads. \<open>getCookies\<close> is given the
  \<open>credentials\<close> and \<open>url\<close> of a request; its filter keeps an entry when
  \<open>expires ? expires <= Date.now() : true\<close>. \<open>saveCookies\<close> is given the
  \<open>Set-Cookie\<close> lines and the \<open>url\<close> of a response; \<open>merged_cookies\<close> is its
  constant \<open>cookies\<close>, \<open>later\<close> is the function it reduces the values with,
  \<open>or0 x\<close> is \<open>x?.valueOf() || 0\<close>, and \<open>ttl_of\<close> is the third argument of its call
  of \<open>set\<close>.
\<close>

datatype credentials_mode = Omit | SameOrigin | Include

record http_request =
  credentials :: credentials_mode
  url :: string
  headers :: "(string \<times> string) list"

record http_response =
  status :: int
  resp_url :: string
  getSetCookie :: "string list"

definition num_le :: "jsnum option \<Rightarrow> int \<Rightarrow> bool" where
  "num_le x n = (case x of Some (Num m) \<Rightarrow> m \<le> n | _ \<Rightarrow> False)"

definition getCookies ::
  "builtins \<Rightarrow> int \<Rightarrow> credentials_mode \<Rightarrow> string \<Rightarrow> cache \<Rightarrow> stored_cookie obj \<times> cache" where
  "getCookies B now creds u c =
     (if creds = Omit then ([], c)
      else
        let origin = URL_origin B u;
            c1 = (if \<not> isReady c then start c else c);
            (value, c2) = cache_get origin ''cookies'' now c1
        in case value of
             None \<Rightarrow> ([], c2)
           | Some cs \<Rightarrow>
               (fromEntries
                  (filter (\<lambda>(n, e). if truthy_num (expires e) then num_le (expires e) now else True)
                     (Object_entries cs)),
                c2))"

definition omit_name :: "cookie \<Rightarrow> stored_cookie" where
  "omit_name ck = \<lparr> val = val ck, expires = expires ck, options = options ck \<rparr>"

definition or0 :: "jsnum option \<Rightarrow> int" where
  "or0 x = (case x of Some (Num n) \<Rightarrow> n | _ \<Rightarrow> 0)"

definition later :: "stored_cookie \<Rightarrow> stored_cookie \<Rightarrow> stored_cookie" where
  "later a b = (if or0 (expires a) > or0 (expires b) then a else b)"

definition ttl_of :: "int \<Rightarrow> jsnum option \<Rightarrow> ttl" where
  "ttl_of now ex =
     (if truthy_num ex then Millis (max (or0 ex - now) 0) else Infinity)"

definition merged_cookies :: "builtins \<Rightarrow> int \<Rightarrow> stored_cookie obj \<Rightarrow> string list \<Rightarrow> stored_cookie obj" where
  "merged_cookies B now old hs =
     spread2 old
       (fromEntries (map (\<lambda>h. let ck = deseralizeCookie B now h in (name ck, omit_name ck)) hs))"

definition saveCookies :: "builtins \<Rightarrow> int \<Rightarrow> string list \<Rightarrow> string \<Rightarrow> cache \<Rightarrow> cache" where
  "saveCookies B now hs u c =
     (let origin = URL_origin B u;
          (old, c1) = getCookies B now Include u c;
          cookies = merged_cookies B now old hs
      in case Object_values cookies of
           [] \<Rightarrow> c1
         | v # vs \<Rightarrow>
             let e = foldl later v vs;
                 c2 = (if \<not> isReady c1 then start c1 else c1)
             in cache_set origin ''cookies'' cookies (ttl_of now (expires e)) now c2)"

section \<open>Interception pipeline\<close>

text \<open>
  The second request interceptor (\<open>inject_cookies\<close>) and the first response interceptor
  (\<open>capture_cookies\<close>). The two logging interceptors return the request and the response
  they are given. \<open>headers_set\<close> is \<open>Headers.set\<close> on a header list whose names
  are in lower case, as it works under Node, where \<open>cookie\<close> is a header like any other.
\<close>

fun headers_set :: "string \<Rightarrow> string \<Rightarrow> (string \<times> string) list \<Rightarrow> (string \<times> string) list" where
  "headers_set k v [] = [(k, v)]"
| "headers_set k v ((k', v') # hs) =
     (if k = k' then (k, v) # filter (\<lambda>(n, _). n \<noteq> k) hs else (k', v') # headers_set k v hs)"

definition inject_cookies :: "builtins \<Rightarrow> int \<Rightarrow> http_request \<Rightarrow> cache \<Rightarrow> http_request \<times> cache" where
  "inject_cookies B now req c =
     (let (cookies, c') = getCookies B now (credentials req) (url req) c
      in (req\<lparr> headers := headers_set ''cookie'' (serializeCookies cookies) (headers req) \<rparr>, c'))"

definition capture_cookies :: "builtins \<Rightarrow> int \<Rightarrow> http_response \<Rightarrow> cache \<Rightarrow> http_response \<times> cache" where
  "capture_cookies B now resp c = (resp, saveCookies B now (getSetCookie resp) (resp_url resp) c)"


section \<open>Login\<close>

text \<open>
  The generated operations \<open>getCurrentUser\<close> and \<open>verify2Fa\<close>, the code generator
  \<open>TOTP.generate\<close> and the built-ins \<open>btoa\<close> and \<open>encodeURIComponent\<close> are the
  fields of a record \<open>api\<close>: what they answer is a parameter. \<open>getCurrentUser\<close> is
  given the \<open>credentials\<close> option and the \<open>authorization\<close> header of the call
  (\<open>None\<close> when the call sets none). \<open>login\<close> returns its result together with the
  list of the calls it made on these operations, in order. \<open>dispatch\<close> is the
  \<open>Promise.all\<close> over the list of optional verification functions (an absent function
  gives \<open>undefined\<close> and makes no call), and \<open>classify\<close> is the rest of the body from
  the constant \<open>verified\<close> on. A truthy \<open>error\<close> or \<open>data\<close> is \<open>Some\<close>.
\<close>

record error =
  message :: string
  status_code :: int

definition issue :: "string \<Rightarrow> int \<Rightarrow> error" where
  "issue m code = \<lparr> message = m, status_code = code \<rparr>"

datatype user_data = RequiresTwoFactorAuth "string list" | CurrentUser string

fun requiresTwoFactorAuth_in :: "user_data \<Rightarrow> bool" where
  "requiresTwoFactorAuth_in (RequiresTwoFactorAuth _) = True"
| "requiresTwoFactorAuth_in (CurrentUser _) = False"

record verify2fa_data =
  verified :: bool

record 'd result =
  data :: "'d option"
  error :: "error option"
  request :: http_request
  response :: http_response

type_synonym factor = "verify2fa_data result"

datatype api_call =
    CallGetCurrentUser "credentials_mode option" "string option"
  | CallVerify2Fa string

record api =
  getCurrentUser :: "credentials_mode option \<Rightarrow> string option \<Rightarrow> user_data result"
  verify2Fa :: "string \<Rightarrow> factor"
  TOTP_generate :: "string \<Rightarrow> string"
  btoa :: "string \<Rightarrow> string"
  encodeURIComponent :: "string \<Rightarrow> string"

record LoginCredentials =
  username :: string
  password :: string
  twoFactorSecret :: "string option"
  twoFactorCode :: "(unit \<Rightarrow> string) option"

definition factor_verified :: "factor option \<Rightarrow> bool" where
  "factor_verified v =
     (case v of
        None \<Rightarrow> False
      | Some r \<Rightarrow> (case data r of None \<Rightarrow> False | Some d \<Rightarrow> verified d))"

definition factor_429 :: "factor option \<Rightarrow> bool" where
  "factor_429 v = (case v of None \<Rightarrow> False | Some r \<Rightarrow> status (response r) = 429)"

definition classify ::
  "api \<Rightarrow> user_data result \<Rightarrow> factor option list \<Rightarrow> user_data result \<times> api_call list" where
  "classify A r factors =
     (let verified = (case find factor_verified factors of
                        None \<Rightarrow> False | Some v \<Rightarrow> factor_verified v);
          tooManyAttempts = (case find factor_429 factors of
                        None \<Rightarrow> False | Some v \<Rightarrow> factor_429 v)
      in if \<not> verified
         then (\<lparr> data = None,
                 error = Some (if tooManyAttempts
                               then issue ''Too many attempts, try again later'' 429
                               else issue ''Invalid two-factor authentication code'' 400),
                 request = request r, response = response r \<rparr>, [])
         else (getCurrentUser A None None, [CallGetCurrentUser None None]))"

definition dispatch :: "string \<Rightarrow> (string \<Rightarrow> factor) option list \<Rightarrow> factor option list \<times> api_call list" where
  "dispatch code fns =
     (map (map_option (\<lambda>fn. fn code)) fns,
      concat (map (\<lambda>fn. case fn of None \<Rightarrow> [] | Some _ \<Rightarrow> [CallVerify2Fa code]) fns))"

definition authorization_of :: "api \<Rightarrow> LoginCredentials \<Rightarrow> string" where
  "authorization_of A creds =
     ''Basic '' @ btoa A (encodeURIComponent A (username creds) @ '':'' @
                          encodeURIComponent A (password creds))"

definition resolve_provider :: "api \<Rightarrow> LoginCredentials \<Rightarrow> (unit \<Rightarrow> string) option" where
  "resolve_provider A creds =
     (case twoFactorSecret creds of
        Some secret \<Rightarrow>
          if secret \<noteq> [] \<and> twoFactorCode creds = None
          then Some (\<lambda>_. TOTP_generate A secret)
          else twoFactorCode creds
      | None \<Rightarrow> twoFactorCode creds)"

definition login :: "api \<Rightarrow> LoginCredentials \<Rightarrow> user_data result \<times> api_call list" where
  "login A creds =
     (let r = getCurrentUser A (Some Omit) (Some (authorization_of A creds));
          t1 = [CallGetCurrentUser (Some Omit) (Some (authorization_of A creds))]
      in if error r \<noteq> None
         then (\<lparr> data = None, error = error r, request = request r, response = response r \<rparr>, t1)
         else if (case data r of None \<Rightarrow> False | Some d \<Rightarrow> requiresTwoFactorAuth_in d)
         then
           (case resolve_provider A creds of
              None \<Rightarrow>
                (\<lparr> data = None,
                   error = Some (issue ''Missing two-factor authentication, incomplete login flow'' 400),
                   request = request r, response = response r \<rparr>, t1)
            | Some f \<Rightarrow>
                (let code = f ();
                     (factors, t2) = dispatch code [if length code = 6 then Some (verify2Fa A) else None];
                     (out, t3) = classify A r factors
                 in (out, t1 @ t2 @ t3)))
         else (\<lparr> data = data r, error = None, request = request r, response = response r \<rparr>, t1))"

subsection \<open>Sample service behaviour for evaluating concrete logins\<close>

definition sample_request :: http_request where
  "sample_request = \<lparr> credentials = Omit, url = ''https://vrchat.com/api/1/auth/user'', headers = [] \<rparr>"

definition sample_response :: "int \<Rightarrow> http_response" where
  "sample_response st = \<lparr> status = st, resp_url = ''https://vrchat.com/api/1/auth/user'', getSetCookie = [] \<rparr>"

definition sample_factor :: "bool option \<Rightarrow> int \<Rightarrow> factor" where
  "sample_factor v st =
     \<lparr> data = map_option (\<lambda>b. \<lparr> verified = b \<rparr>) v,
       error = (if v = None then Some (issue ''rejected'' st) else None),
       request = sample_request, response = sample_response st \<rparr>"

definition sample_api :: "bool option \<Rightarrow> int \<Rightarrow> api" where
  "sample_api v st =
     \<lparr> getCurrentUser = (\<lambda>c a.
          \<lparr> data = Some (if c = Some Omit then RequiresTwoFactorAuth [''totp''] else CurrentUser ''tupper''),
            error = None, request = sample_request, response = sample_response 200 \<rparr>),
       verify2Fa = (\<lambda>code. sample_factor v st),
       TOTP_generate = (\<lambda>secret. ''123456''),
       btoa = (\<lambda>s. s),
       encodeURIComponent = (\<lambda>s. s) \<rparr>"

definition sample_credentials :: "string option \<Rightarrow> string option \<Rightarrow> LoginCredentials" where
  "sample_credentials secret code =
     \<lparr> username = ''user'', password = ''pass'', twoFactorSecret = secret,
       twoFactorCode = map_option (\<lambda>c u. c) code \<rparr>"


subsection \<open>Sample jars and reference definitions\<close>

definition sample_url :: string where
  "sample_url = ''https://vrchat.com/api/1/auth/user''"

definition empty_cache :: cache where
  "empty_cache = \<lparr> ready = False, entries = Map.empty, calls = [] \<rparr>"

definition jar_cache :: "stored_cookie obj \<Rightarrow> cache" where
  "jar_cache cs =
     \<lparr> ready = True,
       entries = [(''https://vrchat.com'', ''cookies'') \<mapsto> \<lparr> item = cs, stored = 0, lifetime = Infinity \<rparr>],
       calls = [] \<rparr>"

definition session_cookie :: "string \<Rightarrow> stored_cookie" where
  "session_cookie v = \<lparr> val = v, expires = None, options = [] \<rparr>"

definition expiring_cookie :: "string \<Rightarrow> int \<Rightarrow> stored_cookie" where
  "expiring_cookie v t = \<lparr> val = v, expires = Some (Num t), options = [] \<rparr>"

text \<open>
  The attribute segments of a Set-Cookie line (the pieces separated by \<open>;\<close> after the
  value) and the value of the last segment carrying a given attribute name.
\<close>

definition attribute_segments :: "string \<Rightarrow> string list" where
  "attribute_segments h = snd (js_split CHR '';'' (js_join ''='' (snd (js_split CHR ''='' h))))"

definition last_attribute :: "string \<Rightarrow> string list \<Rightarrow> string option" where
  "last_attribute key segs =
     (case filter (\<lambda>p. fst p = key) (map parse_option segs) of
        [] \<Rightarrow> None
      | p # ps \<Rightarrow> snd (last (p # ps)))"

text \<open>
  The time-to-live as the specification words it: the minimum non-null \<open>expiresAt\<close> of the
  collection less the current time, not below zero; unbounded when no entry has an expiry.
\<close>

definition spec_min_expiresAt :: "stored_cookie obj \<Rightarrow> int option" where
  "spec_min_expiresAt cs =
     (case List.map_filter (\<lambda>(k, e). case expires e of Some (Num n) \<Rightarrow> Some n | _ \<Rightarrow> None) cs of
        [] \<Rightarrow> None
      | n # ns \<Rightarrow> Some (foldl min n ns))"

definition spec_ttl :: "int \<Rightarrow> stored_cookie obj \<Rightarrow> ttl" where
  "spec_ttl now cs =
     (case spec_min_expiresAt cs of None \<Rightarrow> Infinity | Some m \<Rightarrow> Millis (max (m - now) 0))"

section \<open>Properties of the login flow\<close>

lemma find_flag: "(case find P xs of None \<Rightarrow> False | Some v \<Rightarrow> P v) = (\<exists>v\<in>set xs. P v)"
  by (induction xs) auto

lemma classify_priority:
  "classify A r fs =
     (if \<exists>v\<in>set fs. factor_verified v
      then (getCurrentUser A None None, [CallGetCurrentUser None None])
      else if \<exists>v\<in>set fs. factor_429 v
      then (\<lparr> data = None, error = Some (issue ''Too many attempts, try again later'' 429),
              request = request r, response = response r \<rparr>, [])
      else (\<lparr> data = None, error = Some (issue ''Invalid two-factor authentication code'' 400),
              request = request r, response = response r \<rparr>, []))"
  by (simp add: classify_def find_flag)

lemma login_verifying:
  assumes "r = getCurrentUser A (Some Omit) (Some (authorization_of A creds))"
    and "error r = None"
    and "data r = Some (RequiresTwoFactorAuth ms)"
    and "resolve_provider A creds = Some f"
  shows "login A creds =
           (fst (classify A r (fst (dispatch (f ()) [if length (f ()) = 6 then Some (verify2Fa A) else None]))),
            [CallGetCurrentUser (Some Omit) (Some (authorization_of A creds))]
              @ snd (dispatch (f ()) [if length (f ()) = 6 then Some (verify2Fa A) else None])
              @ snd (classify A r (fst (dispatch (f ()) [if length (f ()) = 6 then Some (verify2Fa A) else None]))))"
  using assms by (simp add: login_def Let_def split_beta)

text \<open>
  C3. Once the factor-verification results are in, the outcome follows a fixed priority: a
  result with \<open>verified = true\<close> makes login return the re-issued identity fetch;
  otherwise a result with transport status 429 gives the error
  ("Too many attempts, try again later", 429); otherwise the error
  ("Invalid two-factor authentication code", 400). The outcome depends only on which
  results are present, not on their order.
\<close>

theorem login_classification_priority:
  assumes "r = getCurrentUser A (Some Omit) (Some (authorization_of A creds))"
    and "error r = None"
    and "data r = Some (RequiresTwoFactorAuth ms)"
    and "resolve_provider A creds = Some f"
    and "factors = fst (dispatch (f ()) [if length (f ()) = 6 then Some (verify2Fa A) else None])"
  shows "fst (login A creds) = fst (classify A r factors)
       \<and> (\<forall>fs. classify A r fs =
            (if \<exists>v\<in>set fs. factor_verified v
             then (getCurrentUser A None None, [CallGetCurrentUser None None])
             else if \<exists>v\<in>set fs. factor_429 v
             then (\<lparr> data = None,
                     error = Some \<lparr> message = ''Too many attempts, try again later'', status_code = 429 \<rparr>,
                     request = request r, response = response r \<rparr>, [])
             else (\<lparr> data = None,
                     error = Some \<lparr> message = ''Invalid two-factor authentication code'', status_code = 400 \<rparr>,
                     request = request r, response = response r \<rparr>, [])))
       \<and> (\<forall>fs fs'. mset fs = mset fs' \<longrightarrow> classify A r fs = classify A r fs')"
proof (intro conjI allI impI)
  show "fst (login A creds) = fst (classify A r factors)"
    using login_verifying [OF assms(1-4)] assms(5) by simp
next
  fix fs
  show "classify A r fs =
            (if \<exists>v\<in>set fs. factor_verified v
             then (getCurrentUser A None None, [CallGetCurrentUser None None])
             else if \<exists>v\<in>set fs. factor_429 v
             then (\<lparr> data = None,
                     error = Some \<lparr> message = ''Too many attempts, try again later'', status_code = 429 \<rparr>,
                     request = request r, response = response r \<rparr>, [])
             else (\<lparr> data = None,
                     error = Some \<lparr> message = ''Invalid two-factor authentication code'', status_code = 400 \<rparr>,
                     request = request r, response = response r \<rparr>, []))"
    by (simp add: classify_priority issue_def)
next
  fix fs fs' :: "factor option list"
  assume "mset fs = mset fs'"
  then have "set fs = set fs'" by (rule mset_eq_setD)
  then show "classify A r fs = classify A r fs'"
    by (simp add: classify_priority)
qed

theorem login_classification_priority_witness:
  "fst (login (sample_api None 429) (sample_credentials (Some ''JBSWY3DPEHPK3PXP'') None)) =
     \<lparr> data = None,
       error = Some \<lparr> message = ''Too many attempts, try again later'', status_code = 429 \<rparr>,
       request = sample_request, response = sample_response 200 \<rparr>
   \<and> fst (classify (sample_api None 429)
            (getCurrentUser (sample_api None 429) (Some Omit) (Some ''Basic user:pass''))
            [Some (sample_factor None 429), None, Some (sample_factor (Some True) 200)])
     = \<lparr> data = Some (CurrentUser ''tupper''), error = None,
         request = sample_request, response = sample_response 200 \<rparr>
   \<and> classify (sample_api None 429)
        (getCurrentUser (sample_api None 429) (Some Omit) (Some ''Basic user:pass''))
        [Some (sample_factor None 429), Some (sample_factor (Some False) 200)]
     = classify (sample_api None 429)
        (getCurrentUser (sample_api None 429) (Some Omit) (Some ''Basic user:pass''))
        [Some (sample_factor (Some False) 200), Some (sample_factor None 429)]"
  using login_classification_priority [of
      "getCurrentUser (sample_api None 429) (Some Omit) (Some ''Basic user:pass'')"
      "sample_api None 429" "sample_credentials (Some ''JBSWY3DPEHPK3PXP'') None" "[''totp'']"
      "\<lambda>_. ''123456''" "[Some (sample_factor None 429)]"]
  by (simp add: sample_api_def sample_credentials_def authorization_of_def resolve_provider_def
      dispatch_def sample_factor_def factor_verified_def factor_429_def sample_response_def)

text \<open>
  C6. When the first identity fetch answers with a factor-required body and the caller gave
  neither \<open>twoFactorSecret\<close> nor \<open>twoFactorCode\<close>, login returns the error
  ("Missing two-factor authentication, incomplete login flow", 400); the only call made is
  the first identity fetch, so no factor verification is attempted.
\<close>

theorem login_missing_two_factor:
  assumes "r = getCurrentUser A (Some Omit) (Some (authorization_of A creds))"
    and "error r = None"
    and "data r = Some (RequiresTwoFactorAuth ms)"
    and "twoFactorSecret creds = None"
    and "twoFactorCode creds = None"
  shows "login A creds =
           (\<lparr> data = None,
              error = Some \<lparr> message = ''Missing two-factor authentication, incomplete login flow'',
                             status_code = 400 \<rparr>,
              request = request r, response = response r \<rparr>,
            [CallGetCurrentUser (Some Omit) (Some (authorization_of A creds))])"
  using assms by (simp add: login_def resolve_provider_def issue_def Let_def)

theorem login_missing_two_factor_witness:
  "login (sample_api (Some True) 200) (sample_credentials None None) =
     (\<lparr> data = None,
        error = Some \<lparr> message = ''Missing two-factor authentication, incomplete login flow'',
                       status_code = 400 \<rparr>,
        request = sample_request, response = sample_response 200 \<rparr>,
      [CallGetCurrentUser (Some Omit) (Some ''Basic user:pass'')])"
  using login_missing_two_factor [of
      "getCurrentUser (sample_api (Some True) 200) (Some Omit) (Some ''Basic user:pass'')"
      "sample_api (Some True) 200" "sample_credentials None None" "[''totp'']"]
  by (simp add: sample_api_def sample_credentials_def authorization_of_def)

text \<open>
  C10. When login reaches the verification stage with a code that is not 6 characters long,
  no factor-verification call is made (the only call is the first identity fetch) and login
  returns the error ("Invalid two-factor authentication code", 400).
\<close>

theorem login_wrong_length_code:
  assumes "r = getCurrentUser A (Some Omit) (Some (authorization_of A creds))"
    and "error r = None"
    and "data r = Some (RequiresTwoFactorAuth ms)"
    and "resolve_provider A creds = Some f"
    and "length (f ()) \<noteq> 6"
  shows "login A creds =
           (\<lparr> data = None,
              error = Some \<lparr> message = ''Invalid two-factor authentication code'', status_code = 400 \<rparr>,
              request = request r, response = response r \<rparr>,
            [CallGetCurrentUser (Some Omit) (Some (authorization_of A creds))])"
  using login_verifying [OF assms(1-4)] assms(5)
  by (simp add: dispatch_def classify_priority factor_verified_def factor_429_def issue_def)

theorem login_wrong_length_code_witness:
  "login (sample_api (Some True) 200) (sample_credentials None (Some ''1234567'')) =
     (\<lparr> data = None,
        error = Some \<lparr> message = ''Invalid two-factor authentication code'', status_code = 400 \<rparr>,
        request = sample_request, response = sample_response 200 \<rparr>,
      [CallGetCurrentUser (Some Omit) (Some ''Basic user:pass'')])"
  using login_wrong_length_code [of
      "getCurrentUser (sample_api (Some True) 200) (Some Omit) (Some ''Basic user:pass'')"
      "sample_api (Some True) 200" "sample_credentials None (Some ''1234567'')" "[''totp'']"
      "\<lambda>_. ''1234567''"]
  by (simp add: sample_api_def sample_credentials_def authorization_of_def resolve_provider_def)

section \<open>Properties of the cookie model\<close>

lemma map_of_obj_set: "map_of (obj_set k v ob) = (map_of ob)(k \<mapsto> v)"
  by (induction ob) (auto simp: fun_upd_twist)

lemma map_of_foldl_obj_set:
  "map_of (foldl (\<lambda>ob (k, v). obj_set k v ob) acc es) = map_of (rev es @ acc)"
  by (induction es arbitrary: acc) (auto simp: map_of_obj_set split_beta)

lemma get_prop_fromEntries: "get_prop (fromEntries es) k = map_of (rev es) k"
  by (simp add: get_prop_def fromEntries_def map_of_foldl_obj_set)

lemma map_of_rev_last:
  "map_of (rev es) k =
     (case filter (\<lambda>p. fst p = k) es of [] \<Rightarrow> None | p # ps \<Rightarrow> Some (snd (last (p # ps))))"
proof (induction es rule: rev_induct)
  case Nil
  then show ?case by simp
next
  case (snoc x xs)
  then show ?case by (cases x) (auto split: list.splits)
qed

lemma truthy_last_attribute:
  "truthy_str (get_prop (fromEntries (map parse_option segs)) key) =
     (case last_attribute key segs of None \<Rightarrow> False | Some s \<Rightarrow> s \<noteq> [])"
  by (simp add: truthy_str_def get_prop_fromEntries map_of_rev_last last_attribute_def
      split: list.splits option.splits)

lemma str_of_last_attribute:
  "str_of (get_prop (fromEntries (map parse_option segs)) key) =
     (case last_attribute key segs of None \<Rightarrow> [] | Some s \<Rightarrow> s)"
  by (simp add: str_of_def get_prop_fromEntries map_of_rev_last last_attribute_def
      split: list.splits option.splits)

text \<open>
  C8, as the code has it. \<open>deseralizeCookie\<close> is a total function (no step of it can
  throw) and derives \<open>expires\<close> from the presence of the attributes, not from their
  being well-formed: if the last \<open>max-age\<close> attribute of the line has a non-empty value
  \<open>m\<close>, then \<open>expires = now + Number(m) * 1000\<close>, whatever the line says about
  \<open>expires\<close> (so \<open>NaN\<close> when \<open>m\<close> is not numeric); else if the last \<open>expires\<close>
  attribute has a non-empty value \<open>d\<close>, then \<open>expires\<close> is the time the date parser
  gives for \<open>d\<close> (\<open>NaN\<close> when it is not a date); else \<open>expires = null\<close>.
\<close>

theorem deseralizeCookie_expires:
  "expires (deseralizeCookie B now h) =
     (case last_attribute ''max-age'' (attribute_segments h) of
        Some (c # cs) \<Rightarrow> Some (js_add (Num now) (js_mul (Number B (c # cs)) (Num 1000)))
      | _ \<Rightarrow>
        (case last_attribute ''expires'' (attribute_segments h) of
           Some (d # ds) \<Rightarrow> Some (Date_getTime B (d # ds))
         | _ \<Rightarrow> None))"
  by (simp add: deseralizeCookie_def attribute_segments_def split_beta Let_def
      truthy_last_attribute str_of_last_attribute split: option.splits list.splits)

theorem deseralizeCookie_expires_witness:
  "expires (deseralizeCookie JS 1000 ''auth=abc; Max-Age=60; Path=/; Expires=Thu, 01 Jan 1970 00:00:05 GMT'')
     = Some (Num 61000)
   \<and> expires (deseralizeCookie JS 1000 ''auth=abc; Path=/; Expires=Thu, 01 Jan 1970 00:00:05 GMT'')
     = Some (Num 5000)
   \<and> expires (deseralizeCookie JS 1000 ''auth=abc; Path=/; HttpOnly'') = None"
proof -
  have a: "last_attribute ''max-age''
             (attribute_segments ''auth=abc; Max-Age=60; Path=/; Expires=Thu, 01 Jan 1970 00:00:05 GMT'')
           = Some ''60''"
    by code_simp
  have b: "last_attribute ''max-age''
             (attribute_segments ''auth=abc; Path=/; Expires=Thu, 01 Jan 1970 00:00:05 GMT'') = None"
          "last_attribute ''expires''
             (attribute_segments ''auth=abc; Path=/; Expires=Thu, 01 Jan 1970 00:00:05 GMT'')
           = Some ''Thu, 01 Jan 1970 00:00:05 GMT''"
    by code_simp+
  have c: "last_attribute ''max-age'' (attribute_segments ''auth=abc; Path=/; HttpOnly'') = None"
          "last_attribute ''expires'' (attribute_segments ''auth=abc; Path=/; HttpOnly'') = None"
    by code_simp+
  have n: "Number JS ''60'' = Num 60" by code_simp
  have d: "Date_getTime JS ''Thu, 01 Jan 1970 00:00:05 GMT'' = Num 5000" by code_simp
  show ?thesis
    using deseralizeCookie_expires [of JS 1000 "''auth=abc; Max-Age=60; Path=/; Expires=Thu, 01 Jan 1970 00:00:05 GMT''"]
      deseralizeCookie_expires [of JS 1000 "''auth=abc; Path=/; Expires=Thu, 01 Jan 1970 00:00:05 GMT''"]
      deseralizeCookie_expires [of JS 1000 "''auth=abc; Path=/; HttpOnly''"]
    by (simp only: a b c n d option.case list.case js_add.simps js_mul.simps) simp
qed

text \<open>
  C8 as stated fails: with a \<open>max-age\<close> that is not numeric and an \<open>expires\<close> that is
  a date (1970-01-01 00:00:05 GMT, that is 5000), the result is \<open>NaN\<close>, not 5000; and an
  \<open>expires\<close> that is not a date gives \<open>NaN\<close>, not \<open>null\<close>.
\<close>

theorem deseralizeCookie_expires_counterexample:
  "Number JS ''abc'' = NaN
   \<and> Date_getTime JS ''Thu, 01 Jan 1970 00:00:05 GMT'' = Num 5000
   \<and> expires (deseralizeCookie JS 1000 ''a=1; Max-Age=abc; Expires=Thu, 01 Jan 1970 00:00:05 GMT'') = Some NaN
   \<and> expires (deseralizeCookie JS 1000 ''a=1; Expires=yesterday'') = Some NaN"
  by code_simp

lemma key_before_non_index: "array_index k = None \<Longrightarrow> \<not> key_before k k'"
  by (simp add: key_before_def)

lemma obj_set_append:
  "array_index k = None \<Longrightarrow> k \<notin> fst ` set ob \<Longrightarrow> obj_set k v ob = ob @ [(k, v)]"
  by (induction ob) (auto simp: key_before_non_index)

lemma foldl_obj_set_append:
  "list_all (\<lambda>k. array_index k = None) (map fst es) \<Longrightarrow> distinct (map fst (acc @ es)) \<Longrightarrow>
   foldl (\<lambda>ob (k, v). obj_set k v ob) acc es = acc @ es"
proof (induction es arbitrary: acc)
  case Nil
  then show ?case by simp
next
  case (Cons e es)
  obtain k v where e: "e = (k, v)" by (cases e)
  from Cons.prems e have step: "obj_set k v acc = acc @ [(k, v)]"
    by (intro obj_set_append) auto
  from Cons.prems e have "distinct (map fst ((acc @ [(k, v)]) @ es))" by auto
  with Cons.IH [of "acc @ [(k, v)]"] Cons.prems e step show ?case by simp
qed

lemma fromEntries_insertion_order:
  "list_all (\<lambda>k. array_index k = None) (map fst es) \<Longrightarrow> distinct (map fst es) \<Longrightarrow>
   fromEntries es = es"
  using foldl_obj_set_append [of es "[]"] by (simp add: fromEntries_def)

lemma set_obj_set: "set (obj_set k v ob) \<subseteq> insert (k, v) (set ob)"
  by (induction ob) (auto split: if_splits)

lemma enum_before_trans: "enum_before a b \<Longrightarrow> enum_before b c \<Longrightarrow> enum_before a c"
  by (auto simp: enum_before_def split: option.splits)

lemma key_before_enum: "key_before a b \<Longrightarrow> enum_before a b"
  by (auto simp: key_before_def enum_before_def split: option.splits)

lemma not_key_before_enum: "\<not> key_before a b \<Longrightarrow> enum_before b a"
  by (auto simp: key_before_def enum_before_def split: option.splits)

lemma obj_set_enumeration:
  "sorted_wrt (\<lambda>p q. enum_before (fst p) (fst q)) ob \<Longrightarrow>
   sorted_wrt (\<lambda>p q. enum_before (fst p) (fst q)) (obj_set k v ob)"
proof (induction ob)
  case Nil
  then show ?case by simp
next
  case (Cons p ps)
  obtain k' v' where p: "p = (k', v')" by (cases p)
  from Cons.prems p have rest: "\<forall>q\<in>set ps. enum_before k' (fst q)"
    and sorted: "sorted_wrt (\<lambda>p q. enum_before (fst p) (fst q)) ps"
    by auto
  show ?case
  proof (cases "k = k'")
    case True
    with rest sorted p show ?thesis by simp
  next
    case diff: False
    show ?thesis
    proof (cases "key_before k k'")
      case True
      then have "enum_before k k'" by (rule key_before_enum)
      with rest have "\<forall>q\<in>set ps. enum_before k (fst q)"
        by (blast intro: enum_before_trans)
      with True diff rest sorted p \<open>enum_before k k'\<close> show ?thesis by simp
    next
      case False
      then have "enum_before k' k" by (rule not_key_before_enum)
      with rest set_obj_set [of k v ps] have "\<forall>q\<in>set (obj_set k v ps). enum_before k' (fst q)"
        by auto
      with False diff p Cons.IH [OF sorted] show ?thesis by simp
    qed
  qed
qed

lemma foldl_obj_set_enumeration:
  "sorted_wrt (\<lambda>p q. enum_before (fst p) (fst q)) acc \<Longrightarrow>
   sorted_wrt (\<lambda>p q. enum_before (fst p) (fst q)) (foldl (\<lambda>ob (k, v). obj_set k v ob) acc es)"
  by (induction es arbitrary: acc) (auto simp: obj_set_enumeration split_beta)

lemma fromEntries_enumeration:
  "sorted_wrt (\<lambda>p q. enum_before (fst p) (fst q)) (fromEntries es)"
  by (simp add: fromEntries_def foldl_obj_set_enumeration)

lemma keys_obj_set: "fst ` set (obj_set k v ob) = insert k (fst ` set ob)"
  by (induction k v ob rule: obj_set.induct) (simp_all add: insert_commute)

lemma obj_set_distinct:
  "sorted_wrt (\<lambda>p q. enum_before (fst p) (fst q)) ob \<Longrightarrow> distinct (map fst ob) \<Longrightarrow>
   distinct (map fst (obj_set k v ob))"
proof (induction ob)
  case Nil
  then show ?case by simp
next
  case (Cons p ps)
  obtain k' v' where p: "p = (k', v')" by (cases p)
  from Cons.prems p have rest: "\<forall>q\<in>set ps. enum_before k' (fst q)"
    and sorted: "sorted_wrt (\<lambda>p q. enum_before (fst p) (fst q)) ps"
    and fresh: "k' \<notin> fst ` set ps" and dist: "distinct (map fst ps)"
    by auto
  show ?case
  proof (cases "k = k'")
    case True
    with fresh dist p show ?thesis by simp
  next
    case diff: False
    show ?thesis
    proof (cases "key_before k k'")
      case True
      have "k \<notin> fst ` set ps"
      proof
        assume "k \<in> fst ` set ps"
        then obtain q where "q \<in> set ps" "fst q = k" by auto
        with rest have "enum_before k' k" by auto
        with True show False
          by (auto simp: key_before_def enum_before_def split: option.splits)
      qed
      with True diff fresh dist p show ?thesis by simp
    next
      case False
      have "k' \<notin> fst ` set (obj_set k v ps)"
        using fresh diff by (simp add: keys_obj_set)
      with False diff p Cons.IH [OF sorted dist] show ?thesis by simp
    qed
  qed
qed

lemma foldl_obj_set_distinct:
  "sorted_wrt (\<lambda>p q. enum_before (fst p) (fst q)) acc \<Longrightarrow> distinct (map fst acc) \<Longrightarrow>
   distinct (map fst (foldl (\<lambda>ob (k, v). obj_set k v ob) acc es))"
  by (induction es arbitrary: acc) (auto simp: obj_set_distinct obj_set_enumeration split_beta)

lemma fromEntries_distinct: "distinct (map fst (fromEntries es))"
  by (simp add: fromEntries_def foldl_obj_set_distinct)

lemma obj_set_present:
  "sorted_wrt (\<lambda>p q. enum_before (fst p) (fst q)) ob \<Longrightarrow> k \<in> fst ` set ob \<Longrightarrow>
   obj_set k v ob = put k v ob"
proof (induction ob)
  case Nil
  then show ?case by simp
next
  case (Cons p ps)
  obtain k' v' where p: "p = (k', v')" by (cases p)
  show ?case
  proof (cases "k = k'")
    case True
    with p show ?thesis by simp
  next
    case diff: False
    with Cons.prems p have inps: "k \<in> fst ` set ps" by auto
    then obtain q where "q \<in> set ps" "fst q = k" by auto
    with Cons.prems p have "enum_before k' k" by auto
    then have "\<not> key_before k k'"
      by (auto simp: key_before_def enum_before_def split: option.splits)
    moreover from Cons.prems have "sorted_wrt (\<lambda>p q. enum_before (fst p) (fst q)) ps" by simp
    ultimately show ?thesis using diff p Cons.IH inps by simp
  qed
qed

lemma put_present:
  "distinct (map fst m) \<Longrightarrow> k \<in> fst ` set m \<Longrightarrow>
   put k v m = map (\<lambda>p. if fst p = k then (k, v) else p) m"
proof (induction m)
  case Nil
  then show ?case by simp
next
  case (Cons p ps)
  obtain k' v' where p: "p = (k', v')" by (cases p)
  show ?case
  proof (cases "k = k'")
    case True
    with Cons.prems p have "k \<notin> fst ` set ps" by auto
    then have "map (\<lambda>p. if fst p = k then (k, v) else p) ps = ps"
      by (induction ps) auto
    with True p show ?thesis by simp
  next
    case False
    with Cons p show ?thesis by auto
  qed
qed

lemma put_absent: "k \<notin> fst ` set m \<Longrightarrow> put k v m = m @ [(k, v)]"
  by (induction m) auto

lemma keys_put: "fst ` set (put k v m) = insert k (fst ` set m)"
  by (induction k v m rule: put.induct) (simp_all add: insert_commute)

lemma put_distinct: "distinct (map fst m) \<Longrightarrow> distinct (map fst (put k v m))"
proof (induction m)
  case Nil
  then show ?case by simp
next
  case (Cons p ps)
  obtain k' v' where p: "p = (k', v')" by (cases p)
  with Cons show ?case by (auto simp: keys_put)
qed

lemma inserted_snoc: "inserted (es @ [(k, v)]) = put k v (inserted es)"
  by (simp add: inserted_def)

lemma fromEntries_snoc: "fromEntries (es @ [(k, v)]) = obj_set k v (fromEntries es)"
  by (simp add: fromEntries_def)

lemma inserted_distinct: "distinct (map fst (inserted es))"
proof (induction es rule: rev_induct)
  case Nil
  then show ?case by (simp add: inserted_def)
next
  case (snoc e es)
  then show ?case by (cases e) (simp add: inserted_snoc put_distinct)
qed

lemma filter_map_same:
  "(\<And>y. P (h y) = P y) \<Longrightarrow> filter P (map h xs) = map h (filter P xs)"
  by (induction xs) auto

lemma insort_key_map_same:
  "(\<And>y. f (h y) = f y) \<Longrightarrow> insort_key f (h x) (map h xs) = map h (insort_key f x xs)"
  by (induction xs) auto

lemma sort_key_map_same:
  "(\<And>y. f (h y) = f y) \<Longrightarrow> sort_key f (map h xs) = map h (sort_key f xs)"
  by (induction xs) (auto simp: insort_key_map_same)

lemma insort_insert_after:
  "insort_key f a (insert_after f x ys) = insert_after f x (insort_key f a ys)"
  by (induction ys) auto

lemma sort_key_snoc: "sort_key f (xs @ [x]) = insert_after f x (sort_key f xs)"
  by (induction xs) (auto simp: insort_insert_after)

lemma obj_set_new_index:
  "is_index k \<Longrightarrow> k \<notin> fst ` set (ix @ others) \<Longrightarrow>
   list_all (\<lambda>p. is_index (fst p)) ix \<Longrightarrow> list_all (\<lambda>p. \<not> is_index (fst p)) others \<Longrightarrow>
   obj_set k v (ix @ others) = insert_after (\<lambda>p. index_of (fst p)) (k, v) ix @ others"
proof (induction ix)
  case Nil
  then show ?case
    by (cases others) (auto simp: key_before_def is_index_def split: option.splits)
next
  case (Cons p ps)
  obtain k' v' where p: "p = (k', v')" by (cases p)
  from Cons.prems p have "key_before k k' \<longleftrightarrow> index_of k < index_of k'"
    by (auto simp: key_before_def is_index_def index_of_def split: option.splits)
  with Cons p show ?case by auto
qed

lemma enumeration_put:
  assumes E: "fromEntries es = enumeration es"
  shows "obj_set k v (enumeration es) = enumeration (es @ [(k, v)])"
proof -
  let ?m = "inserted es"
  let ?ix = "sort_key (\<lambda>p. index_of (fst p)) (filter (\<lambda>p. is_index (fst p)) ?m)"
  let ?others = "filter (\<lambda>p. \<not> is_index (fst p)) ?m"
  have enum: "enumeration es = ?ix @ ?others" by (simp add: enumeration_def)
  have keys: "fst ` set (enumeration es) = fst ` set ?m"
    by (auto simp: enumeration_def)
  have sorted: "sorted_wrt (\<lambda>p q. enum_before (fst p) (fst q)) (enumeration es)"
    using fromEntries_enumeration [of es] E by simp
  have dist: "distinct (map fst (enumeration es))"
    using fromEntries_distinct [of es] E by simp
  show ?thesis
  proof (cases "k \<in> fst ` set ?m")
    case True
    let ?h = "\<lambda>p. if fst p = k then (k, v) else p"
    have fst_h: "fst (?h y) = fst y" for y :: "string \<times> 'a" by simp
    have "obj_set k v (enumeration es) = put k v (enumeration es)"
      using obj_set_present [OF sorted] True keys by simp
    also have "\<dots> = map ?h (enumeration es)"
      using put_present [OF dist] True keys by simp
    also have "\<dots> = map ?h ?ix @ map ?h ?others" by (simp add: enum)
    also have "map ?h ?ix = sort_key (\<lambda>p. index_of (fst p)) (map ?h (filter (\<lambda>p. is_index (fst p)) ?m))"
      by (rule sort_key_map_same [symmetric]) simp
    also have "map ?h (filter (\<lambda>p. is_index (fst p)) ?m) = filter (\<lambda>p. is_index (fst p)) (map ?h ?m)"
      by (rule filter_map_same [symmetric]) simp
    also have "map ?h ?others = filter (\<lambda>p. \<not> is_index (fst p)) (map ?h ?m)"
      by (rule filter_map_same [symmetric]) simp
    also have "map ?h ?m = inserted (es @ [(k, v)])"
      using put_present [OF inserted_distinct, of k es v] True by (simp add: inserted_snoc)
    finally show ?thesis by (simp add: enumeration_def)
  next
    case False
    then have ins: "inserted (es @ [(k, v)]) = ?m @ [(k, v)]"
      by (simp add: inserted_snoc put_absent)
    show ?thesis
    proof (cases "is_index k")
      case True
      have "k \<notin> fst ` set (?ix @ ?others)" using False keys enum by simp
      moreover have "list_all (\<lambda>p. is_index (fst p)) ?ix" by (simp add: list_all_iff)
      moreover have "list_all (\<lambda>p. \<not> is_index (fst p)) ?others" by (simp add: list_all_iff)
      ultimately have "obj_set k v (?ix @ ?others) =
          insert_after (\<lambda>p. index_of (fst p)) (k, v) ?ix @ ?others"
        using True by (rule obj_set_new_index [rotated])
      then show ?thesis
        using True by (simp add: enum enumeration_def ins sort_key_snoc)
    next
      case nonindex: False
      then have "array_index k = None" by (simp add: is_index_def)
      moreover have "k \<notin> fst ` set (enumeration es)" using False keys by simp
      ultimately have "obj_set k v (enumeration es) = enumeration es @ [(k, v)]"
        by (rule obj_set_append)
      then show ?thesis
        using nonindex by (simp add: enumeration_def ins)
    qed
  qed
qed

lemma fromEntries_enumerated: "fromEntries es = enumeration es"
proof (induction es rule: rev_induct)
  case Nil
  then show ?case by (simp add: fromEntries_def enumeration_def inserted_def)
next
  case (snoc e es)
  obtain k v where e: "e = (k, v)" by (cases e)
  show ?case
    using enumeration_put [OF snoc.IH, of k v] snoc.IH e by (simp add: fromEntries_snoc)
qed

lemma spread2_fromEntries: "spread2 a b = fromEntries (Object_entries a @ Object_entries b)"
  by (simp add: spread2_def fromEntries_def)

text \<open>
  C9, as the code has it. \<open>serializeCookies\<close> gives the \<open>name=value\<close> pairs of
  the collection joined with \<open>"; "\<close>, in the order in which the object enumerates its
  properties. For an object built from a list of entries (by \<open>Object.fromEntries\<close> or by
  spreading), that order is \<open>enumeration\<close>: each name once with the value last written
  for it, the names that are array indices first, in ascending order of the index, then the
  other names in the order of their first insertion. So the order is the insertion order
  when no name is an array index. The result depends on the names and the values only: two
  collections that differ in \<open>expires\<close> or \<open>options\<close> alone are serialised alike,
  so no attribute of a parsed cookie shows in the header.
\<close>

theorem serializeCookies_pairs:
  "serializeCookies cs = js_join ''; '' (map (\<lambda>(n, c). n @ ''='' @ val c) (Object_entries cs))
   \<and> Object_entries (fromEntries es) = enumeration es
   \<and> serializeCookies (fromEntries es) =
        js_join ''; '' (map (\<lambda>(n, c). n @ ''='' @ val c) (enumeration es))
   \<and> serializeCookies (spread2 a b) =
        js_join ''; '' (map (\<lambda>(n, c). n @ ''='' @ val c) (enumeration (Object_entries a @ Object_entries b)))
   \<and> (list_all (\<lambda>k. array_index k = None) (map fst es) \<and> distinct (map fst es) \<longrightarrow>
        serializeCookies (fromEntries es) = js_join ''; '' (map (\<lambda>(n, c). n @ ''='' @ val c) es))
   \<and> sorted_wrt (\<lambda>p q. enum_before (fst p) (fst q)) (Object_entries (fromEntries es))
   \<and> (map (\<lambda>(n, c). (n, val c)) cs = map (\<lambda>(n, c). (n, val c)) cs' \<longrightarrow>
        serializeCookies cs = serializeCookies cs')"
proof (intro conjI impI)
  show first: "serializeCookies cs = js_join ''; '' (map (\<lambda>(n, c). n @ ''='' @ val c) (Object_entries cs))"
    for cs
    by (simp add: serializeCookies_def serializeCookie_def)
  show "Object_entries (fromEntries es) = enumeration es"
    by (simp add: Object_entries_def fromEntries_enumerated)
  show "serializeCookies (fromEntries es) =
          js_join ''; '' (map (\<lambda>(n, c). n @ ''='' @ val c) (enumeration es))"
    by (simp add: first Object_entries_def fromEntries_enumerated)
  show "serializeCookies (spread2 a b) =
          js_join ''; '' (map (\<lambda>(n, c). n @ ''='' @ val c) (enumeration (Object_entries a @ Object_entries b)))"
    by (simp add: first spread2_fromEntries fromEntries_enumerated Object_entries_def)
  show "sorted_wrt (\<lambda>p q. enum_before (fst p) (fst q)) (Object_entries (fromEntries es))"
    by (simp add: Object_entries_def fromEntries_enumeration)
  show "serializeCookies (fromEntries es) = js_join ''; '' (map (\<lambda>(n, c). n @ ''='' @ val c) es)"
    if "list_all (\<lambda>k. array_index k = None) (map fst es) \<and> distinct (map fst es)"
    using that fromEntries_insertion_order [of es]
    by (simp add: serializeCookies_def serializeCookie_def Object_entries_def)
  show "serializeCookies cs = serializeCookies cs'"
    if eq: "map (\<lambda>(n, c). (n, val c)) cs = map (\<lambda>(n, c). (n, val c)) cs'"
  proof -
    have via: "map (\<lambda>(n, c). serializeCookie n (val c)) xs =
          map (\<lambda>p. serializeCookie (fst p) (snd p)) (map (\<lambda>(n, c). (n, val c)) xs)"
      for xs :: "stored_cookie obj"
      by (induction xs) auto
    show ?thesis
      unfolding serializeCookies_def Object_entries_def via eq ..
  qed
qed

theorem serializeCookies_pairs_witness:
  "serializeCookies (fromEntries
      [(''b'', session_cookie ''2''), (''1'', expiring_cookie ''x'' 5000),
       (''a'', session_cookie ''3''), (''b'', session_cookie ''4'')])
     = ''1=x; b=4; a=3''
   \<and> serializeCookies (spread2 [(''b'', session_cookie ''2'')] [(''10'', session_cookie ''y''), (''9'', session_cookie ''x'')])
     = ''9=x; 10=y; b=2''
   \<and> serializeCookies (fromEntries
      [(''b'', \<lparr> val = ''2'', expires = Some (Num 5000), options = [(''max-age'', Some ''4'')] \<rparr>),
       (''a'', \<lparr> val = ''1'', expires = None, options = [(''path'', Some ''/''), (''httponly'', None)] \<rparr>)])
     = ''b=2; a=1''
   \<and> serializeCookies [(''a'', expiring_cookie ''1'' 5000)] = serializeCookies [(''a'', session_cookie ''1'')]"
proof -
  let ?mixed = "[(''b'', session_cookie ''2''), (''1'', expiring_cookie ''x'' 5000),
       (''a'', session_cookie ''3''), (''b'', session_cookie ''4'')]"
  let ?old = "[(''b'', session_cookie ''2'')]"
  let ?new = "[(''10'', session_cookie ''y''), (''9'', session_cookie ''x'')]"
  let ?es = "[(''b'', \<lparr> val = ''2'', expires = Some (Num 5000), options = [(''max-age'', Some ''4'')] \<rparr>),
       (''a'', \<lparr> val = ''1'', expires = None, options = [(''path'', Some ''/''), (''httponly'', None)] \<rparr>)]"
  let ?cs = "[(''a'', expiring_cookie ''1'' 5000)]"
  let ?cs' = "[(''a'', session_cookie ''1'')]"
  note mixed = serializeCookies_pairs [of ?cs ?mixed ?old ?new ?cs']
  note plain = serializeCookies_pairs [of ?cs ?es ?old ?new ?cs']
  have m: "enumeration ?mixed =
      [(''1'', expiring_cookie ''x'' 5000), (''b'', session_cookie ''4''), (''a'', session_cookie ''3'')]"
    by code_simp
  have n: "enumeration (Object_entries ?old @ Object_entries ?new) =
      [(''9'', session_cookie ''x''), (''10'', session_cookie ''y''), (''b'', session_cookie ''2'')]"
    by code_simp
  have h: "list_all (\<lambda>k. array_index k = None) (map fst ?es) \<and> distinct (map fst ?es)"
    by (simp add: array_index_def is_digit_def)
  have g: "map (\<lambda>(n, c). (n, val c)) ?cs = map (\<lambda>(n, c). (n, val c)) ?cs'"
    by (simp add: expiring_cookie_def session_cookie_def)
  from mixed have a1: "serializeCookies (fromEntries ?mixed) =
      js_join ''; '' (map (\<lambda>(n, c). n @ ''='' @ val c) (enumeration ?mixed))"
    by blast
  have one: "serializeCookies (fromEntries ?mixed) = ''1=x; b=4; a=3''"
    unfolding a1 m by (simp add: expiring_cookie_def session_cookie_def)
  from mixed have a2: "serializeCookies (spread2 ?old ?new) =
      js_join ''; '' (map (\<lambda>(n, c). n @ ''='' @ val c) (enumeration (Object_entries ?old @ Object_entries ?new)))"
    by blast
  have two: "serializeCookies (spread2 ?old ?new) = ''9=x; 10=y; b=2''"
    unfolding a2 n by (simp add: session_cookie_def)
  from plain h have three: "serializeCookies (fromEntries ?es) =
      js_join ''; '' (map (\<lambda>(n, c). n @ ''='' @ val c) ?es)"
    by blast
  from plain g have four: "serializeCookies ?cs = serializeCookies ?cs'"
    by blast
  have five: "js_join ''; '' (map (\<lambda>(n, c). n @ ''='' @ val c) ?es) = ''b=2; a=1''"
    by simp
  from one two three [unfolded five] four show ?thesis by blast
qed

text \<open>
  C9 as stated fails on the order: a cookie named \<open>1\<close> that is set after a cookie named
  \<open>b\<close> is enumerated, stored and sent before it.
\<close>

theorem serializeCookies_order_counterexample:
  "serializeCookies (merged_cookies JS 1000 [] [''b=2'', ''1=x'']) = ''1=x; b=2''
   \<and> headers (fst (inject_cookies JS 2000
        \<lparr> credentials = Include, url = sample_url, headers = [] \<rparr>
        (saveCookies JS 1000 [''b=2'', ''1=x''] sample_url empty_cache)))
     = [(''cookie'', ''1=x; b=2'')]"
  by code_simp

section \<open>Properties of the cookie jar\<close>

lemma truthy_num_or0: "truthy_num x = (or0 x \<noteq> 0)"
  by (cases x rule: truthy_num.cases) (simp_all add: or0_def)

lemma or0_later: "or0 (expires (later a b)) = max (or0 (expires a)) (or0 (expires b))"
  by (simp add: later_def)

lemma or0_foldl_later:
  "or0 (expires (foldl later v vs)) = Max (set (map (\<lambda>e. or0 (expires e)) (v # vs)))"
proof (induction vs arbitrary: v)
  case Nil
  then show ?case by simp
next
  case (Cons w ws)
  have "or0 (expires (foldl later v (w # ws))) = Max (set (map (\<lambda>e. or0 (expires e)) (later v w # ws)))"
    using Cons.IH [of "later v w"] by simp
  also have "\<dots> = Max (insert (max (or0 (expires v)) (or0 (expires w))) (set (map (\<lambda>e. or0 (expires e)) ws)))"
    by (simp add: or0_later)
  also have "\<dots> = Max (set (map (\<lambda>e. or0 (expires e)) (v # w # ws)))"
  proof (cases "ws = []")
    case True
    then show ?thesis by (simp add: max.commute)
  next
    case False
    then show ?thesis by (simp add: max.assoc)
  qed
  finally show ?case .
qed

lemma ttl_of_foldl_later:
  "ttl_of now (expires (foldl later v vs)) =
     (let M = Max (set (map (\<lambda>e. or0 (expires e)) (v # vs)))
      in if M = 0 then Infinity else Millis (max (M - now) 0))"
  unfolding ttl_of_def truthy_num_or0 or0_foldl_later by (simp add: Let_def)

lemma getCookies_entries: "entries (snd (getCookies B now cr u c)) = entries c"
  by (simp add: getCookies_def cache_get_def start_def isReady_def Let_def split: option.splits)

lemma getCookies_ready: "cr \<noteq> Omit \<Longrightarrow> ready (snd (getCookies B now cr u c))"
  by (auto simp add: getCookies_def cache_get_def start_def isReady_def Let_def split: option.splits)

lemma getCookies_calls:
  "cr \<noteq> Omit \<Longrightarrow> calls (snd (getCookies B now cr u c)) =
     calls c @ (if ready c then [] else [CallStart]) @ [CallGet (URL_origin B u) ''cookies'']"
  by (auto simp add: getCookies_def cache_get_def start_def isReady_def Let_def split: option.splits)

lemma saveCookies_write:
  assumes g: "getCookies B now Include u c = (old, c1)"
    and v: "Object_values (merged_cookies B now old hs) = v # vs"
  shows "saveCookies B now hs u c =
           cache_set (URL_origin B u) ''cookies'' (merged_cookies B now old hs)
             (ttl_of now (expires (foldl later v vs))) now c1"
proof -
  have "ready c1" using getCookies_ready [of Include B now u c] g by simp
  then show ?thesis using g v by (simp add: saveCookies_def Let_def isReady_def)
qed

lemma origin_sample_url: "URL_origin JS sample_url = ''https://vrchat.com''"
  by (simp add: JS_def origin_of_url_def sample_url_def)

lemma getCookies_empty_cache:
  "getCookies JS now Include sample_url empty_cache =
     ([], \<lparr> ready = True, entries = Map.empty,
            calls = [CallStart, CallGet ''https://vrchat.com'' ''cookies''] \<rparr>)"
  by (simp add: getCookies_def origin_sample_url empty_cache_def isReady_def start_def cache_get_def)

lemma merged_two_expiring:
  "merged_cookies JS 1000 [] [''a=1; Max-Age=4'', ''b=2; Max-Age=8''] =
     [(''a'', \<lparr> val = ''1'', expires = Some (Num 5000), options = [(''max-age'', Some ''4'')] \<rparr>),
      (''b'', \<lparr> val = ''2'', expires = Some (Num 9000), options = [(''max-age'', Some ''8'')] \<rparr>)]"
  by code_simp

text \<open>
  C1 against the code. The filter of \<open>getCookies\<close> keeps an entry with a truthy
  \<open>expires\<close> when \<open>expires <= Date.now()\<close>: read at time 2000, a jar holding
  \<open>old\<close> (expired at 1000), \<open>fresh\<close> (expiring at 3000) and the session cookie
  \<open>s\<close> yields \<open>old\<close> and \<open>s\<close>. The expired entry is returned and the one
  still valid is left out.
\<close>

theorem getCookies_keeps_expired_drops_fresh:
  "fst (getCookies JS 2000 Include sample_url
         (jar_cache [(''old'', expiring_cookie ''1'' 1000), (''fresh'', expiring_cookie ''2'' 3000),
                     (''s'', session_cookie ''3'')]))
   = [(''old'', expiring_cookie ''1'' 1000), (''s'', session_cookie ''3'')]"
  by code_simp

text \<open>
  C2, as the code has it. When the merged collection is not empty, \<open>saveCookies\<close>
  calls \<open>set\<close> with the merged collection and a time-to-live taken from the greatest
  \<open>expires\<close> of its entries, an entry with no usable \<open>expires\<close> (\<open>null\<close>,
  \<open>NaN\<close>) counting as 0: with \<open>M\<close> that maximum, the time-to-live is
  \<open>max (M - now) 0\<close> if \<open>M\<close> is not 0 and \<open>Infinity\<close> if it is 0, which is the
  case when no entry has an expiry.
\<close>

theorem saveCookies_ttl:
  assumes "getCookies B now Include u c = (old, c1)"
    and "cookies = merged_cookies B now old hs"
    and "cookies \<noteq> []"
    and "M = Max (set (map (\<lambda>e. or0 (expires e)) (Object_values cookies)))"
  shows "saveCookies B now hs u c =
           cache_set (URL_origin B u) ''cookies'' cookies
             (if M = 0 then Infinity else Millis (max (M - now) 0)) now c1"
proof -
  from assms(3) obtain v vs where v: "Object_values cookies = v # vs"
    by (cases cookies) (auto simp: Object_values_def)
  show ?thesis
    using saveCookies_write [OF assms(1), of hs v vs] v assms(2,4)
    by (simp add: ttl_of_foldl_later Let_def)
qed

theorem saveCookies_ttl_witness:
  "saveCookies JS 1000 [''a=1; Max-Age=4'', ''b=2; Max-Age=8''] sample_url empty_cache =
     cache_set ''https://vrchat.com'' ''cookies''
       [(''a'', \<lparr> val = ''1'', expires = Some (Num 5000), options = [(''max-age'', Some ''4'')] \<rparr>),
        (''b'', \<lparr> val = ''2'', expires = Some (Num 9000), options = [(''max-age'', Some ''8'')] \<rparr>)]
       (Millis 8000) 1000
       \<lparr> ready = True, entries = Map.empty,
         calls = [CallStart, CallGet ''https://vrchat.com'' ''cookies''] \<rparr>"
  using saveCookies_ttl [OF getCookies_empty_cache [of 1000] merged_two_expiring [symmetric], of 9000]
  by (simp add: Object_values_def or0_def origin_sample_url)

text \<open>
  C2 as stated fails: for cookies expiring at 5000 and 9000 saved at time 1000, the
  time-to-live passed to \<open>set\<close> is 8000 (from the later expiry), while the minimum
  expiry gives 4000.
\<close>

theorem saveCookies_ttl_counterexample:
  "calls (saveCookies JS 1000 [''a=1; Max-Age=4'', ''b=2; Max-Age=8''] sample_url empty_cache) =
     [CallStart, CallGet ''https://vrchat.com'' ''cookies'',
      CallSet ''https://vrchat.com'' ''cookies''
        [(''a'', \<lparr> val = ''1'', expires = Some (Num 5000), options = [(''max-age'', Some ''4'')] \<rparr>),
         (''b'', \<lparr> val = ''2'', expires = Some (Num 9000), options = [(''max-age'', Some ''8'')] \<rparr>)]
        (Millis 8000)]
   \<and> spec_ttl 1000
        [(''a'', \<lparr> val = ''1'', expires = Some (Num 5000), options = [(''max-age'', Some ''4'')] \<rparr>),
         (''b'', \<lparr> val = ''2'', expires = Some (Num 9000), options = [(''max-age'', Some ''8'')] \<rparr>)]
      = Millis 4000"
  by code_simp

lemma obj_set_nonempty: "obj_set k v ob \<noteq> []"
  by (cases ob) (auto split: if_splits)

lemma foldl_obj_set_nonempty:
  "acc \<noteq> [] \<or> es \<noteq> [] \<Longrightarrow> foldl (\<lambda>ob (k, v). obj_set k v ob) acc es \<noteq> []"
  by (induction es arbitrary: acc) (auto simp: obj_set_nonempty)

lemma fromEntries_empty_iff: "fromEntries es = [] \<longleftrightarrow> es = []"
  using foldl_obj_set_nonempty [of "[]" es] by (auto simp: fromEntries_def)

lemma merged_cookies_no_headers: "merged_cookies B now old [] = fromEntries old"
  by (simp add: merged_cookies_def spread2_def fromEntries_def Object_entries_def)

lemma getCookies_session_jar:
  "getCookies JS 2000 Include sample_url (jar_cache [(''a'', session_cookie ''1'')]) =
     ([(''a'', session_cookie ''1'')],
      (jar_cache [(''a'', session_cookie ''1'')])\<lparr> calls := [CallGet ''https://vrchat.com'' ''cookies''] \<rparr>)"
  by (simp add: getCookies_def origin_sample_url jar_cache_def isReady_def cache_get_def alive_def
      session_cookie_def fromEntries_def Object_entries_def Let_def)

lemma saveCookies_skip:
  assumes "getCookies B now Include u c = (old, c1)"
    and "merged_cookies B now old hs = []"
  shows "saveCookies B now hs u c = c1"
  using assms by (simp add: saveCookies_def Let_def Object_values_def)

text \<open>
  C5, as the code has it. For a response with no \<open>Set-Cookie\<close> line,
  \<open>saveCookies\<close> reads the jar through \<open>getCookies\<close> (which starts the cache if
  needed, calls \<open>get\<close> and writes nothing). If that gives no cookie, nothing is
  written; if it gives some, they are written back under the same key with a time-to-live
  computed anew.
\<close>

theorem saveCookies_no_headers:
  assumes "getCookies B now Include u c = (old, c1)"
  shows "calls c1 = calls c @ (if ready c then [] else [CallStart]) @ [CallGet (URL_origin B u) ''cookies'']
       \<and> entries c1 = entries c
       \<and> (old = [] \<longrightarrow> saveCookies B now [] u c = c1)
       \<and> (old \<noteq> [] \<longrightarrow>
            (\<exists>t. saveCookies B now [] u c =
                   cache_set (URL_origin B u) ''cookies'' (fromEntries old) t now c1))"
proof (intro conjI impI)
  show "calls c1 = calls c @ (if ready c then [] else [CallStart]) @ [CallGet (URL_origin B u) ''cookies'']"
    using getCookies_calls [of Include B now u c] assms by simp
  show "entries c1 = entries c"
    using getCookies_entries [of B now Include u c] assms by simp
  show "saveCookies B now [] u c = c1" if "old = []"
    using saveCookies_skip [OF assms, of "[]"] that
    by (simp add: merged_cookies_no_headers fromEntries_def)
  show "\<exists>t. saveCookies B now [] u c =
               cache_set (URL_origin B u) ''cookies'' (fromEntries old) t now c1" if "old \<noteq> []"
  proof -
    from that have "merged_cookies B now old [] \<noteq> []"
      by (simp add: merged_cookies_no_headers fromEntries_empty_iff)
    then obtain v vs where "Object_values (merged_cookies B now old []) = v # vs"
      by (cases "merged_cookies B now old []") (auto simp: Object_values_def)
    from saveCookies_write [OF assms this] show ?thesis
      by (auto simp: merged_cookies_no_headers)
  qed
qed

theorem saveCookies_no_headers_witness:
  "saveCookies JS 2000 [] sample_url empty_cache =
     \<lparr> ready = True, entries = Map.empty, calls = [CallStart, CallGet ''https://vrchat.com'' ''cookies''] \<rparr>
   \<and> (\<exists>t. saveCookies JS 2000 [] sample_url (jar_cache [(''a'', session_cookie ''1'')]) =
          cache_set ''https://vrchat.com'' ''cookies'' [(''a'', session_cookie ''1'')] t 2000
            ((jar_cache [(''a'', session_cookie ''1'')])\<lparr> calls := [CallGet ''https://vrchat.com'' ''cookies''] \<rparr>))"
  using saveCookies_no_headers [OF getCookies_empty_cache [of 2000]]
    saveCookies_no_headers [OF getCookies_session_jar]
  by (simp add: origin_sample_url fromEntries_def)

text \<open>
  C5 as stated fails: with one session cookie in the jar, a response without
  \<open>Set-Cookie\<close> lines makes \<open>saveCookies\<close> call \<open>set\<close>, and the entry,
  stored at time 0 before, is one stored at time 2000 after.
\<close>

theorem saveCookies_no_headers_counterexample:
  "calls (saveCookies JS 2000 [] sample_url (jar_cache [(''a'', session_cookie ''1'')])) =
     [CallGet ''https://vrchat.com'' ''cookies'',
      CallSet ''https://vrchat.com'' ''cookies'' [(''a'', session_cookie ''1'')] Infinity]
   \<and> entries (jar_cache [(''a'', session_cookie ''1'')]) (''https://vrchat.com'', ''cookies'') =
       Some \<lparr> item = [(''a'', session_cookie ''1'')], stored = 0, lifetime = Infinity \<rparr>
   \<and> entries (saveCookies JS 2000 [] sample_url (jar_cache [(''a'', session_cookie ''1'')]))
        (''https://vrchat.com'', ''cookies'') =
       Some \<lparr> item = [(''a'', session_cookie ''1'')], stored = 2000, lifetime = Infinity \<rparr>"
  by code_simp

text \<open>
  C7 against the code. Saving \<open>a=1\<close> with \<open>Max-Age=3600\<close> at time 1000 and then
  \<open>b=2\<close> at time 2000 leaves a jar that holds \<open>b\<close> only: the merge starts from
  what \<open>getCookies\<close> returns, and its filter leaves out \<open>a\<close>, which has not
  expired. Cookies without an expiry are merged.
\<close>

theorem saveCookies_drops_unexpired_cookie:
  "entries (saveCookies JS 2000 [''b=2''] sample_url
             (saveCookies JS 1000 [''a=1; Max-Age=3600''] sample_url empty_cache))
     (''https://vrchat.com'', ''cookies'')
   = Some \<lparr> item = [(''b'', \<lparr> val = ''2'', expires = None, options = [] \<rparr>)],
            stored = 2000, lifetime = Infinity \<rparr>"
  by code_simp

lemma saveCookies_merges_session_cookies:
  "entries (saveCookies JS 2000 [''b=2''] sample_url
             (saveCookies JS 1000 [''a=1''] sample_url empty_cache))
     (''https://vrchat.com'', ''cookies'')
   = Some \<lparr> item = [(''a'', \<lparr> val = ''1'', expires = None, options = [] \<rparr>),
                    (''b'', \<lparr> val = ''2'', expires = None, options = [] \<rparr>)],
            stored = 2000, lifetime = Infinity \<rparr>"
  by code_simp

section \<open>Properties of the interception pipeline\<close>

lemma serializeCookies_empty: "serializeCookies [] = []"
  by (simp add: serializeCookies_def Object_entries_def)

text \<open>
  C4, as the code has it. For a request with \<open>credentials: "omit"\<close> the cookie
  interceptor makes no call on the cache and leaves it as it is; it still sets the
  \<open>cookie\<close> header of the request, to the empty string. The request it returns is the
  same whatever the jar holds.
\<close>

theorem inject_cookies_omit:
  assumes "credentials req = Omit"
  shows "inject_cookies B now req c = (req\<lparr> headers := headers_set ''cookie'' [] (headers req) \<rparr>, c)
       \<and> (\<forall>c'. fst (inject_cookies B now req c') = fst (inject_cookies B now req c))"
  using assms by (simp add: inject_cookies_def getCookies_def serializeCookies_empty)

theorem inject_cookies_omit_witness:
  "inject_cookies JS 2000
     \<lparr> credentials = Omit, url = sample_url, headers = [(''authorization'', ''Basic dXNlcjpwYXNz'')] \<rparr>
     (jar_cache [(''auth'', session_cookie ''authcookie_1'')])
   = (\<lparr> credentials = Omit, url = sample_url,
        headers = [(''authorization'', ''Basic dXNlcjpwYXNz''), (''cookie'', [])] \<rparr>,
      jar_cache [(''auth'', session_cookie ''authcookie_1'')])"
  using inject_cookies_omit [of
      "\<lparr> credentials = Omit, url = sample_url, headers = [(''authorization'', ''Basic dXNlcjpwYXNz'')] \<rparr>"
      JS 2000 "jar_cache [(''auth'', session_cookie ''authcookie_1'')]"]
  by simp

text \<open>
  C4 as stated fails in that the stage is not skipped: a \<open>cookie\<close> header that the
  request carries is replaced by the empty string.
\<close>

theorem inject_cookies_omit_counterexample:
  "fst (inject_cookies JS 2000
     \<lparr> credentials = Omit, url = sample_url,
       headers = [(''authorization'', ''Basic dXNlcjpwYXNz''), (''cookie'', ''x=1'')] \<rparr>
     (jar_cache [(''auth'', session_cookie ''authcookie_1'')]))
   = \<lparr> credentials = Omit, url = sample_url,
       headers = [(''authorization'', ''Basic dXNlcjpwYXNz''), (''cookie'', [])] \<rparr>"
  by (simp add: inject_cookies_def getCookies_def serializeCookies_empty)

end
